theory Spec2Isabelle
  imports Main
begin

section \<open>Python strings\<close>

text \<open>
  A Python \<^verbatim>\<open>str\<close> is modelled as a \<^typ>\<open>string\<close>, one \<^typ>\<open>char\<close> per code point; the
  model covers the code points below 256. \<open>isspace\<close> is the whitespace class that
  \<^verbatim>\<open>str.split()\<close> and \<^verbatim>\<open>str.strip()\<close> use without arguments: in that range the code
  points 9 to 13, 28 to 32, 133 and 160.
\<close>

definition isspace :: "char \<Rightarrow> bool" where
  "isspace c =
     (let n = (of_char c :: nat)
      in (9 \<le> n \<and> n \<le> 13) \<or> (28 \<le> n \<and> n \<le> 32) \<or> n = 133 \<or> n = 160)"

text \<open>
  \<^verbatim>\<open>text.split()\<close>: maximal runs of non-whitespace characters, in order. The scan keeps
  the word read so far in \<open>cur\<close> and closes it at each whitespace character.
\<close>

fun split_scan :: "string \<Rightarrow> string \<Rightarrow> string list" where
  "split_scan cur [] = (if cur = [] then [] else [cur])"
| "split_scan cur (c # cs) =
     (if isspace c
      then (if cur = [] then split_scan [] cs else cur # split_scan [] cs)
      else split_scan (cur @ [c]) cs)"

definition split :: "string \<Rightarrow> string list" where
  "split s = split_scan [] s"

text \<open>\<^verbatim>\<open>text.strip()\<close>: leading and trailing whitespace removed.\<close>

definition strip :: "string \<Rightarrow> string" where
  "strip s = rev (dropWhile isspace (rev (dropWhile isspace s)))"

text \<open>\<^verbatim>\<open>sep.join(words)\<close>.\<close>

fun join :: "string \<Rightarrow> string list \<Rightarrow> string" where
  "join sep [] = []"
| "join sep [w] = w"
| "join sep (w # v # ws) = w @ sep @ join sep (v # ws)"

text \<open>
  \<^verbatim>\<open>xs[i:]\<close> for an integer \<open>i\<close>: a negative start counts from the end, and a start
  outside the list is clamped to it.
\<close>

definition slice_from :: "int \<Rightarrow> 'a list \<Rightarrow> 'a list" where
  "slice_from i xs =
     (if i < 0 then drop (nat (max 0 (int (length xs) + i))) xs else drop (nat i) xs)"

section \<open>Data model\<close>

text \<open>
  The dataclasses \<^verbatim>\<open>Chunk\<close> and \<^verbatim>\<open>ChunkResult\<close> of \<^verbatim>\<open>core.py\<close>. The field \<^verbatim>\<open>text\<close> is
  named \<open>text'\<close> here. The \<^verbatim>\<open>config\<close> dictionary is an association list.
\<close>

record Chunk =
  index :: nat
  text' :: string
  token_count :: nat
  char_count :: nat

datatype config_value = IntV int | StrV string

record ChunkResult =
  source :: string
  total_chunks :: nat
  total_tokens :: nat
  total_chars :: nat
  chunks :: "Chunk list"
  config :: "(string \<times> config_value) list"

text \<open>
  The attributes of a \<^verbatim>\<open>Chunkenizer\<close>. \<open>encoding\<close> is \<^verbatim>\<open>self._encoding.encode\<close>, the
  tokenizer of the tiktoken library: a function from a string to its list of token ids,
  taken as total, as the contract of the token counter has it.
\<close>

record Chunkenizer =
  max_tokens :: int
  overlap_tokens :: int
  model :: string
  encoding :: "string \<Rightarrow> nat list"

datatype error =
    KeyError string
  | FileNotFoundError string
  | ValueError string
  | ExtractError string

section \<open>Construction\<close>

text \<open>
  \<^verbatim>\<open>Chunkenizer.__init__\<close>. \<open>encoding_for_model\<close> is \<^verbatim>\<open>tiktoken.encoding_for_model\<close>, which
  raises \<^verbatim>\<open>KeyError\<close> for a model it does not know. The three arguments are stored as
  they come.
\<close>

definition init ::
  "(string \<Rightarrow> (string \<Rightarrow> nat list) option) \<Rightarrow> int \<Rightarrow> int \<Rightarrow> string \<Rightarrow> error + Chunkenizer"
where
  "init encoding_for_model max_tokens_arg overlap_tokens_arg model_arg =
     (case encoding_for_model model_arg of
        None \<Rightarrow> Inl (KeyError model_arg)
      | Some enc \<Rightarrow>
          Inr \<lparr>max_tokens = max_tokens_arg, overlap_tokens = overlap_tokens_arg,
               model = model_arg, encoding = enc\<rparr>)"

section \<open>Chunking\<close>

definition count_tokens :: "Chunkenizer \<Rightarrow> string \<Rightarrow> nat" where
  "count_tokens self s = length (encoding self s)"

text \<open>The chunk appended at a commit and after the loop: built from the window's words.\<close>

definition make_chunk :: "Chunkenizer \<Rightarrow> Chunk list \<Rightarrow> string list \<Rightarrow> Chunk" where
  "make_chunk self chunks_acc current_words =
     (let chunk_text = join '' '' current_words
      in \<lparr>index = length chunks_acc, text' = chunk_text,
          token_count = count_tokens self chunk_text, char_count = length chunk_text\<rparr>)"

text \<open>
  One iteration of the \<^verbatim>\<open>for word in words\<close> loop of \<^verbatim>\<open>chunk_text\<close>, on the state
  \<open>(chunks, current_words, current_tokens)\<close>.
\<close>

fun step ::
  "Chunkenizer \<Rightarrow> Chunk list \<times> string list \<times> nat \<Rightarrow> string \<Rightarrow> Chunk list \<times> string list \<times> nat"
where
  "step self (chunks_acc, current_words, current_tokens) word =
     (let word_tokens = length (encoding self (word @ '' ''))
      in if int current_tokens + int word_tokens > max_tokens self \<and> current_words \<noteq> []
         then
           (let chunks' = chunks_acc @ [make_chunk self chunks_acc current_words];
                overlap_word_count = max 1 (overlap_tokens self div 4);
                kept = slice_from (- overlap_word_count) current_words;
                kept_tokens = sum_list (map (\<lambda>w. length (encoding self (w @ '' ''))) kept)
            in (chunks', kept @ [word], kept_tokens + word_tokens))
         else (chunks_acc, current_words @ [word], current_tokens + word_tokens))"

fun run_loop ::
  "Chunkenizer \<Rightarrow> Chunk list \<times> string list \<times> nat \<Rightarrow> string list \<Rightarrow> Chunk list \<times> string list \<times> nat"
where
  "run_loop self st [] = st"
| "run_loop self st (word # words) = run_loop self (step self st word) words"

text \<open>The last chunk: appended when the window is not empty.\<close>

fun finish :: "Chunkenizer \<Rightarrow> Chunk list \<times> string list \<times> nat \<Rightarrow> Chunk list" where
  "finish self (chunks_acc, current_words, current_tokens) =
     (if current_words \<noteq> [] then chunks_acc @ [make_chunk self chunks_acc current_words]
      else chunks_acc)"

definition chunk_text :: "Chunkenizer \<Rightarrow> string \<Rightarrow> Chunk list" where
  "chunk_text self text =
     (if text = [] \<or> strip text = [] then []
      else finish self (run_loop self ([], [], 0) (split text)))"

section \<open>Result assembly\<close>

definition config_of :: "Chunkenizer \<Rightarrow> (string \<times> config_value) list" where
  "config_of self =
     [(''max_tokens'', IntV (max_tokens self)),
      (''overlap_tokens'', IntV (overlap_tokens self)),
      (''model'', StrV (model self))]"

definition process_text :: "Chunkenizer \<Rightarrow> string \<Rightarrow> string \<Rightarrow> ChunkResult" where
  "process_text self text source_name =
     (let cs = chunk_text self text
      in \<lparr>source = source_name,
          total_chunks = length cs,
          total_tokens = sum_list (map token_count cs),
          total_chars = sum_list (map char_count cs),
          chunks = cs,
          config = config_of self\<rparr>)"

section \<open>Files and extraction\<close>

text \<open>
  \<^verbatim>\<open>Path(file_path).name\<close> and \<^verbatim>\<open>.suffix\<close> for a POSIX path: the name is the last
  component that is neither empty nor a single dot; the suffix starts at the last dot of the
  name, unless that dot is the first or the last character of the name.
\<close>

fun components_scan :: "string \<Rightarrow> string \<Rightarrow> string list" where
  "components_scan cur [] = [cur]"
| "components_scan cur (c # cs) =
     (if c = CHR ''/'' then cur # components_scan [] cs else components_scan (cur @ [c]) cs)"

definition path_name :: "string \<Rightarrow> string" where
  "path_name p =
     (case filter (\<lambda>c. c \<noteq> [] \<and> c \<noteq> ''.'') (components_scan [] p) of
        [] \<Rightarrow> []
      | c # cs \<Rightarrow> last (c # cs))"

text \<open>\<^verbatim>\<open>s.rfind(c)\<close>: the index of the last occurrence, or -1.\<close>

definition rfind :: "char \<Rightarrow> string \<Rightarrow> int" where
  "rfind c s =
     (if c \<in> set s then int (length s) - 1 - int (length (takeWhile (\<lambda>x. x \<noteq> c) (rev s)))
      else - 1)"

definition suffix :: "string \<Rightarrow> string" where
  "suffix p =
     (let name = path_name p; i = rfind CHR ''.'' name
      in if 0 < i \<and> i < int (length name) - 1 then drop (nat i) name else [])"

text \<open>\<^verbatim>\<open>s.lower()\<close> on the code points below 256.\<close>

definition lower_char :: "char \<Rightarrow> char" where
  "lower_char c =
     (let n = (of_char c :: nat)
      in if (65 \<le> n \<and> n \<le> 90) \<or> (192 \<le> n \<and> n \<le> 222 \<and> n \<noteq> 215) then char_of (n + 32)
         else c)"

definition lower :: "string \<Rightarrow> string" where
  "lower s = map lower_char s"

text \<open>
  The extractor functions of the package and the dictionary \<^verbatim>\<open>EXTRACTORS\<close> of
  \<^verbatim>\<open>extractors/__init__.py\<close>, as an association list in the order it is written.
\<close>

datatype extractor = extract_pdf | extract_docx | extract_xlsx | extract_csv | extract_pptx

definition EXTRACTORS :: "(string \<times> extractor) list" where
  "EXTRACTORS =
     [(''.pdf'', extract_pdf), (''.docx'', extract_docx), (''.xlsx'', extract_xlsx),
      (''.xls'', extract_xlsx), (''.csv'', extract_csv), (''.pptx'', extract_pptx)]"

definition get_supported_extensions :: "string set" where
  "get_supported_extensions = set (map fst EXTRACTORS)"

text \<open>
  What the code reads from outside: whether a path exists, and what each extractor returns
  for a path (its text, or the message of the exception it raises).
\<close>

record env =
  path_exists :: "string \<Rightarrow> bool"
  run_extractor :: "extractor \<Rightarrow> string \<Rightarrow> string + string"

text \<open>
  \<^verbatim>\<open>extract_text\<close> and \<^verbatim>\<open>Chunkenizer.process\<close>. Each returns, with its result, the list
  of extractor calls it made, in order. A \<open>ValueError\<close> carries the extension that its
  message names.
\<close>

definition extract_text :: "env \<Rightarrow> string \<Rightarrow> (extractor \<times> string) list \<times> (error + string)" where
  "extract_text e file_path =
     (let ext = lower (suffix file_path)
      in case map_of EXTRACTORS ext of
           None \<Rightarrow> ([], Inl (ValueError ext))
         | Some f \<Rightarrow>
             ([(f, file_path)],
              case run_extractor e f file_path of
                Inl msg \<Rightarrow> Inl (ExtractError msg)
              | Inr text \<Rightarrow> Inr text))"

definition process ::
  "env \<Rightarrow> Chunkenizer \<Rightarrow> string \<Rightarrow> (extractor \<times> string) list \<times> (error + ChunkResult)"
where
  "process e self file_path =
     (if \<not> path_exists e file_path then ([], Inl (FileNotFoundError file_path))
      else
        let ext = lower (suffix file_path)
        in if ext \<notin> get_supported_extensions then ([], Inl (ValueError ext))
           else
             (case extract_text e file_path of
                (calls, Inl err) \<Rightarrow> (calls, Inl err)
              | (calls, Inr text) \<Rightarrow>
                  (let cs = chunk_text self text
                   in (calls,
                       Inr \<lparr>source = path_name file_path,
                            total_chunks = length cs,
                            total_tokens = sum_list (map token_count cs),
                            total_chars = sum_list (map char_count cs),
                            chunks = cs,
                            config = config_of self\<rparr>))))"

section \<open>Test counters\<close>

text \<open>
  The counter of the specification's scenarios: one token for each word of the string, so
  a word with its trailing space counts 1 and a joined text counts its words.
\<close>

definition word_encoding :: "string \<Rightarrow> nat list" where
  "word_encoding s = map (\<lambda>w. 0) (split s)"

definition word_chunker :: "int \<Rightarrow> int \<Rightarrow> Chunkenizer" where
  "word_chunker mt ot =
     \<lparr>max_tokens = mt, overlap_tokens = ot, model = ''words'', encoding = word_encoding\<rparr>"

text \<open>
  A second counter, one token for each character: here the sum of the insertion costs of a
  window's words is one more than the count of the joined text.
\<close>

definition char_encoding :: "string \<Rightarrow> nat list" where
  "char_encoding s = map (\<lambda>c. 0) s"

definition char_chunker :: "int \<Rightarrow> int \<Rightarrow> Chunkenizer" where
  "char_chunker mt ot =
     \<lparr>max_tokens = mt, overlap_tokens = ot, model = ''chars'', encoding = char_encoding\<rparr>"

section \<open>Words of chunks and overlap\<close>

text \<open>A word is a non-empty string without whitespace: what \<open>split\<close> returns.\<close>

definition is_word :: "string \<Rightarrow> bool" where
  "is_word w = (w \<noteq> [] \<and> list_all (\<lambda>c. \<not> isspace c) w)"

text \<open>The word sequence of each chunk, read back from its text.\<close>

definition chunk_words :: "Chunk list \<Rightarrow> string list list" where
  "chunk_words cs = map (\<lambda>c. split (text' c)) cs"

text \<open>
  The number of words kept at a commit, before the slice clamps it to the window:
  \<^verbatim>\<open>max(1, self.overlap_tokens // 4)\<close>.
\<close>

definition overlap_word_count :: "Chunkenizer \<Rightarrow> nat" where
  "overlap_word_count self = nat (max 1 (overlap_tokens self div 4))"

text \<open>
  \<open>carried k prev c\<close>: chunk \<open>c\<close> starts with the last \<open>min k (length prev)\<close> words of
  the chunk before it, and has at least one word after them. \<open>overlapped k\<close> says so of each
  two consecutive chunks.
\<close>

definition carried :: "nat \<Rightarrow> 'a list \<Rightarrow> 'a list \<Rightarrow> bool" where
  "carried k prev c =
     (let m = min k (length prev) in m < length c \<and> take m c = drop (length prev - m) prev)"

fun overlapped :: "nat \<Rightarrow> 'a list list \<Rightarrow> bool" where
  "overlapped k [] = True"
| "overlapped k [c] = True"
| "overlapped k (c # d # cs) = (carried k c d \<and> overlapped k (d # cs))"

text \<open>
  \<open>remove_overlap k\<close>: the words of the first chunk, then of each later chunk without its
  first \<open>min k (length prev)\<close> words, \<open>prev\<close> being the chunk before it.
\<close>

fun fresh_words :: "nat \<Rightarrow> 'a list \<Rightarrow> 'a list list \<Rightarrow> 'a list" where
  "fresh_words k prev [] = []"
| "fresh_words k prev (c # cs) = drop (min k (length prev)) c @ fresh_words k c cs"

fun remove_overlap :: "nat \<Rightarrow> 'a list list \<Rightarrow> 'a list" where
  "remove_overlap k [] = []"
| "remove_overlap k (c # cs) = c @ fresh_words k c cs"

text \<open>
  The case of one carried word: each chunk after the first starts with the last word of the
  chunk before it and goes on with at least one more word.
\<close>

fun one_word_overlap :: "'a list list \<Rightarrow> bool" where
  "one_word_overlap [] = True"
| "one_word_overlap [c] = True"
| "one_word_overlap (c # d # cs) =
     (c \<noteq> [] \<and> d \<noteq> [] \<and> hd d = last c \<and> tl d \<noteq> [] \<and> one_word_overlap (d # cs))"

fun without_first_words :: "'a list list \<Rightarrow> 'a list" where
  "without_first_words [] = []"
| "without_first_words (c # cs) = c @ concat (map tl cs)"

text \<open>The invariant of the loop, after the words \<open>seen\<close>.\<close>

definition loop_inv :: "nat \<Rightarrow> string list \<Rightarrow> Chunk list \<times> string list \<times> nat \<Rightarrow> bool" where
  "loop_inv k seen st =
     (case st of (cs, cw, ct) \<Rightarrow>
        list_all is_word cw \<and> (cw = [] \<longrightarrow> cs = []) \<and> [] \<notin> set (chunk_words cs) \<and>
        overlapped k (chunk_words cs @ [cw]) \<and> remove_overlap k (chunk_words cs @ [cw]) = seen)"

section \<open>Strings: split, strip and join\<close>

lemma isspace_space [simp]: "isspace CHR '' ''"
  by (simp add: isspace_def)

lemma slice_from_neg: "1 \<le> k \<Longrightarrow> slice_from (- k) xs = drop (length xs - nat k) xs"
  by (auto simp: slice_from_def max_def intro!: arg_cong [where f = "\<lambda>n. drop n xs"])

lemma split_scan_nospace:
  "list_all (\<lambda>c. \<not> isspace c) w \<Longrightarrow> split_scan cur (w @ rest) = split_scan (cur @ w) rest"
  by (induction w arbitrary: cur) auto

lemma split_scan_words:
  "list_all (\<lambda>c. \<not> isspace c) cur \<Longrightarrow> list_all is_word (split_scan cur s)"
  by (induction s arbitrary: cur) (auto simp: is_word_def)

lemma split_words: "list_all is_word (split s)"
  by (simp add: split_def split_scan_words)

lemma split_join: "list_all is_word ws \<Longrightarrow> split (join '' '' ws) = ws"
proof (induction "'' ''" ws rule: join.induct)
  case 1
  then show ?case by (simp add: split_def)
next
  case (2 w)
  then have "split_scan [] (w @ []) = [w]"
    by (subst split_scan_nospace) (auto simp: is_word_def)
  then show ?case by (simp add: split_def)
next
  case (3 w v ws)
  then have w: "list_all (\<lambda>c. \<not> isspace c) w" "w \<noteq> []" and rest: "list_all is_word (v # ws)"
    by (auto simp: is_word_def)
  have "split_scan [] (w @ '' '' @ join '' '' (v # ws)) = split_scan w ('' '' @ join '' '' (v # ws))"
    using split_scan_nospace [OF w(1), of "[]"] by simp
  also have "\<dots> = w # split_scan [] (join '' '' (v # ws))"
    using w(2) by simp
  finally show ?case using 3(1) [OF rest] by (simp add: split_def)
qed

section \<open>The loop invariant\<close>

lemma fresh_words_snoc:
  "fresh_words k prev (xs @ [c]) = fresh_words k prev xs @ drop (min k (length (last (prev # xs)))) c"
  by (induction xs arbitrary: prev) auto

lemma remove_overlap_snoc:
  "xs \<noteq> [] \<Longrightarrow> remove_overlap k (xs @ [c]) = remove_overlap k xs @ drop (min k (length (last xs))) c"
  by (cases xs) (auto simp: fresh_words_snoc)

lemma overlapped_snoc:
  "xs \<noteq> [] \<Longrightarrow> overlapped k (xs @ [c]) = (overlapped k xs \<and> carried k (last xs) c)"
  by (induction k xs rule: overlapped.induct) auto

lemma chunk_words_snoc:
  "list_all is_word cw \<Longrightarrow> chunk_words (cs @ [make_chunk self cs cw]) = chunk_words cs @ [cw]"
  by (simp add: chunk_words_def make_chunk_def Let_def split_join)

lemma carried_snoc: "carried k p c \<Longrightarrow> carried k p (c @ [w])"
  by (auto simp: carried_def Let_def)

lemma carried_kept: "1 \<le> k \<Longrightarrow> carried k cw (drop (length cw - k) cw @ [w])"
  by (auto simp: carried_def Let_def min_def)

lemma step_inv:
  assumes inv: "loop_inv (overlap_word_count self) seen st" and w: "is_word word"
  shows "loop_inv (overlap_word_count self) (seen @ [word]) (step self st word) \<and>
         fst (snd (step self st word)) \<noteq> []"
proof -
  obtain cs cw ct where st: "st = (cs, cw, ct)" by (cases st) auto
  let ?k = "overlap_word_count self"
  have k1: "1 \<le> ?k" and kk: "max 1 (overlap_tokens self div 4) = int ?k"
    by (auto simp: overlap_word_count_def)
  from inv st have a: "list_all is_word cw" "cw = [] \<longrightarrow> cs = []" "[] \<notin> set (chunk_words cs)"
    "overlapped ?k (chunk_words cs @ [cw])" "remove_overlap ?k (chunk_words cs @ [cw]) = seen"
    by (auto simp: loop_inv_def)
  show ?thesis
  proof (cases "int ct + int (length (encoding self (word @ '' ''))) > max_tokens self \<and> cw \<noteq> []")
    case True
    let ?kept = "drop (length cw - ?k) cw"
    have s: "step self st word =
        (cs @ [make_chunk self cs cw], ?kept @ [word],
         sum_list (map (\<lambda>w. length (encoding self (w @ '' ''))) ?kept) + length (encoding self (word @ '' '')))"
      using True st k1 by (simp add: Let_def kk slice_from_neg)
    have kw: "list_all is_word (?kept @ [word])"
      using a(1) w by (auto simp: list_all_iff dest: in_set_dropD)
    have len: "length ?kept = min ?k (length cw)" by auto
    have d: "drop (min ?k (length cw)) (?kept @ [word]) = [word]"
      by (auto simp: min_def)
    have ro: "remove_overlap ?k ((chunk_words cs @ [cw]) @ [?kept @ [word]]) = seen @ [word]"
      using a(5) d by (subst remove_overlap_snoc) simp_all
    have ov: "overlapped ?k ((chunk_words cs @ [cw]) @ [?kept @ [word]])"
      using a(4) k1 by (subst overlapped_snoc) (auto simp: carried_kept)
    show ?thesis
      using True a(1,3) kw ro ov unfolding s loop_inv_def
      by (auto simp: chunk_words_snoc)
  next
    case False
    then have s: "step self st word = (cs, cw @ [word], ct + length (encoding self (word @ '' '')))"
      using st by (auto simp: Let_def)
    show ?thesis
    proof (cases "cs = []")
      case True
      then show ?thesis using a w unfolding s loop_inv_def by (simp add: chunk_words_def)
    next
      case False
      then have ne: "chunk_words cs \<noteq> []" by (simp add: chunk_words_def)
      from a(4) ne have ov: "overlapped ?k (chunk_words cs)" "carried ?k (last (chunk_words cs)) cw"
        by (auto simp: overlapped_snoc)
      then have le: "min ?k (length (last (chunk_words cs))) \<le> length cw"
        by (auto simp: carried_def Let_def)
      have "remove_overlap ?k (chunk_words cs @ [cw @ [word]]) = seen @ [word]"
        using a(5) ne le by (simp add: remove_overlap_snoc)
      moreover have "overlapped ?k (chunk_words cs @ [cw @ [word]])"
        using ov ne by (simp add: overlapped_snoc carried_snoc)
      ultimately show ?thesis
        using a w False unfolding s loop_inv_def by simp
    qed
  qed
qed

lemma run_loop_inv:
  assumes "loop_inv (overlap_word_count self) seen st" and "list_all is_word ws"
  shows "loop_inv (overlap_word_count self) (seen @ ws) (run_loop self st ws)"
  using assms
proof (induction ws arbitrary: seen st)
  case Nil
  then show ?case by simp
next
  case (Cons w ws)
  then have "loop_inv (overlap_word_count self) (seen @ [w]) (step self st w)"
    using step_inv [of self seen st w] by simp
  from Cons.IH [OF this] Cons.prems(2) show ?case by simp
qed

lemma finish_inv:
  assumes "loop_inv k seen st"
  shows "overlapped k (chunk_words (finish self st)) \<and>
         remove_overlap k (chunk_words (finish self st)) = seen \<and>
         [] \<notin> set (chunk_words (finish self st))"
proof -
  obtain cs cw ct where st: "st = (cs, cw, ct)" by (cases st) auto
  show ?thesis
  proof (cases "cw = []")
    case True
    with assms st show ?thesis by (auto simp: loop_inv_def chunk_words_def)
  next
    case False
    with assms st show ?thesis by (auto simp: loop_inv_def chunk_words_snoc)
  qed
qed

lemma split_scan_all_space: "list_all isspace s \<Longrightarrow> split_scan [] s = []"
  by (induction s) auto

lemma strip_Nil_iff: "strip s = [] \<longleftrightarrow> list_all isspace s"
proof
  assume "strip s = []"
  then have "dropWhile isspace (rev (dropWhile isspace s)) = []" by (simp add: strip_def)
  then have "\<forall>c \<in> set (dropWhile isspace s). isspace c" by (simp add: dropWhile_eq_Nil_conv)
  moreover have "\<forall>c \<in> set (takeWhile isspace s). isspace c" by (auto dest: set_takeWhileD)
  moreover have "set s = set (takeWhile isspace s) \<union> set (dropWhile isspace s)"
    by (metis set_append takeWhile_dropWhile_id)
  ultimately have "\<forall>c \<in> set s. isspace c"
    by blast
  then show "list_all isspace s" by (simp add: list_all_iff)
next
  assume "list_all isspace s"
  then have dw: "dropWhile isspace s = []" by (simp add: list_all_iff)
  show "strip s = []" by (simp only: strip_def dw rev.simps dropWhile.simps)
qed

lemma chunk_text_words:
  "overlapped (overlap_word_count self) (chunk_words (chunk_text self text)) \<and>
   remove_overlap (overlap_word_count self) (chunk_words (chunk_text self text)) = split text \<and>
   [] \<notin> set (chunk_words (chunk_text self text))"
proof (cases "text = [] \<or> strip text = []")
  case True
  then have "list_all isspace text" by (auto simp: strip_Nil_iff)
  then have "split text = []" by (simp add: split_def split_scan_all_space)
  with True show ?thesis by (simp add: chunk_text_def chunk_words_def)
next
  case False
  have "loop_inv (overlap_word_count self) [] ([], [], 0)"
    by (simp add: loop_inv_def chunk_words_def)
  from run_loop_inv [OF this split_words, of "text"] finish_inv [of "overlap_word_count self" "split text"]
  show ?thesis using False by (simp add: chunk_text_def)
qed



section \<open>Helper facts\<close>

lemma one_word_overlap_of:
  "overlapped (Suc 0) css \<Longrightarrow> [] \<notin> set css \<Longrightarrow> one_word_overlap css"
proof (induction "Suc 0" css rule: overlapped.induct)
  case (3 c d cs)
  then have c: "c \<noteq> []" and d: "d \<noteq> []" and car: "carried (Suc 0) c d" by auto
  from c have m: "min (Suc 0) (length c) = Suc 0" by (cases c) auto
  from car m have l: "Suc 0 < length d" and t: "take (Suc 0) d = drop (length c - Suc 0) c"
    by (auto simp: carried_def Let_def)
  from c obtain b l where "c = b @ [l]" by (cases c rule: rev_cases) auto
  then have "drop (length c - Suc 0) c = [last c]" by simp
  with t d have "hd d = last c" by (cases d) auto
  moreover from l have "tl d \<noteq> []" by (cases d) auto
  ultimately show ?case using 3 c d by simp
qed simp_all

lemma fresh_words_one:
  "prev \<noteq> [] \<Longrightarrow> [] \<notin> set css \<Longrightarrow> fresh_words (Suc 0) prev css = concat (map tl css)"
proof (induction css arbitrary: prev)
  case (Cons c css)
  from Cons.prems(1) have "min (Suc 0) (length prev) = Suc 0" by (cases prev) auto
  moreover from Cons.prems(2) have "c \<noteq> []" and "[] \<notin> set css" by auto
  ultimately show ?case using Cons.IH [of c] by (simp add: drop_Suc)
qed simp

lemma remove_overlap_one:
  "[] \<notin> set css \<Longrightarrow> remove_overlap (Suc 0) css = without_first_words css"
  by (cases css) (auto simp: fresh_words_one)

lemma word_encoding_one: "is_word w \<Longrightarrow> length (word_encoding (w @ '' '')) = 1"
proof -
  assume "is_word w"
  then have "split_scan [] (w @ '' '') = [w]"
    by (subst split_scan_nospace) (auto simp: is_word_def)
  then show ?thesis by (simp add: word_encoding_def split_def)
qed

lemma word_encoding_join:
  "list_all is_word ws \<Longrightarrow> length (word_encoding (join '' '' ws)) = length ws"
  by (simp add: word_encoding_def split_join)


lemma step_cases:
  "step self (cs, cw, ct) word = (cs', cw', ct') \<Longrightarrow>
     cw' \<noteq> [] \<and> (cs' = cs \<or> (cw \<noteq> [] \<and> cs' = cs @ [make_chunk self cs cw]))"
  by (auto simp: Let_def split: if_splits)

lemma run_loop_length:
  "length (finish self (run_loop self (cs, cw, ct) ws))
     \<le> length cs + (if cw = [] then 0 else 1) + length ws"
proof (induction ws arbitrary: cs cw ct)
  case Nil
  then show ?case by simp
next
  case (Cons w ws)
  obtain cs' cw' ct' where st: "step self (cs, cw, ct) w = (cs', cw', ct')"
    by (cases "step self (cs, cw, ct) w") auto
  from step_cases [OF st] have "cw' \<noteq> []" and
    "length cs' + 1 \<le> length cs + (if cw = [] then 0 else 1) + 1" by auto
  with Cons.IH [of cs' cw' ct'] st show ?case by simp
qed

lemma make_chunk_exact:
  "token_count (make_chunk self cs cw) = count_tokens self (text' (make_chunk self cs cw))"
  by (simp add: make_chunk_def Let_def)

lemma run_loop_exact:
  "\<forall>c \<in> set cs. token_count c = count_tokens self (text' c) \<Longrightarrow>
   \<forall>c \<in> set (finish self (run_loop self (cs, cw, ct) ws)).
      token_count c = count_tokens self (text' c)"
proof (induction ws arbitrary: cs cw ct)
  case Nil
  then show ?case by (auto simp: make_chunk_exact)
next
  case (Cons w ws)
  obtain cs' cw' ct' where st: "step self (cs, cw, ct) w = (cs', cw', ct')"
    by (cases "step self (cs, cw, ct) w") auto
  from step_cases [OF st] Cons.prems
  have "\<forall>c \<in> set cs'. token_count c = count_tokens self (text' c)"
    by (auto simp: make_chunk_exact)
  from Cons.IH [OF this] st show ?case by simp
qed

lemmas chunk_eval =
  chunk_text_def split_def strip_def isspace_def make_chunk_def slice_from_def count_tokens_def
  chunk_words_def process_text_def word_chunker_def word_encoding_def char_chunker_def
  char_encoding_def

lemmas path_eval =
  process_def extract_text_def get_supported_extensions_def EXTRACTORS_def suffix_def
  path_name_def rfind_def lower_def lower_char_def char_of_def bit_iff_odd

section \<open>The claims\<close>

subsection \<open>C1: overlap zero\<close>

theorem overlap_zero_duplicates_word:
  "split ''alpha beta gamma'' = [''alpha'', ''beta'', ''gamma''] \<and>
   chunk_words (chunk_text (word_chunker 2 0) ''alpha beta gamma'') =
     [[''alpha'', ''beta''], [''beta'', ''gamma'']]"
  by (simp add: chunk_eval)

text \<open>
  Claim C1, as amended. With \<open>overlap_tokens = 0\<close> and \<open>max_tokens > 0\<close> the number of
  carried words is \<open>max(1, 0) = 1\<close>: for every input text, each chunk after the first
  starts with one duplicated word, the last word of the chunk before it, and goes on with at
  least one new word; no other word occurrence is repeated, since the words of the first
  chunk followed by the words of each later chunk without its first word are the words of the
  input, in order.
\<close>

theorem overlap_zero_carries_one_word:
  assumes "overlap_tokens self = 0" and "0 < max_tokens self"
  shows "one_word_overlap (chunk_words (chunk_text self text)) \<and>
         without_first_words (chunk_words (chunk_text self text)) = split text"
proof -
  from assms(1) have k: "overlap_word_count self = Suc 0"
    by (simp add: overlap_word_count_def)
  from chunk_text_words [of self "text"]
  have ov: "overlapped (Suc 0) (chunk_words (chunk_text self text))"
    and ro: "remove_overlap (Suc 0) (chunk_words (chunk_text self text)) = split text"
    and ne: "[] \<notin> set (chunk_words (chunk_text self text))"
    unfolding k by simp_all
  from ov ne have "one_word_overlap (chunk_words (chunk_text self text))"
    by (rule one_word_overlap_of)
  moreover from ro ne have "without_first_words (chunk_words (chunk_text self text)) = split text"
    by (simp add: remove_overlap_one)
  ultimately show ?thesis by simp
qed

theorem overlap_zero_carries_one_word_witness:
  "overlap_tokens (word_chunker 3 0) = 0 \<and> 0 < max_tokens (word_chunker 3 0) \<and>
   chunk_words (chunk_text (word_chunker 3 0) ''one two three four five'') =
     [[''one'', ''two'', ''three''], [''three'', ''four'', ''five'']] \<and>
   one_word_overlap (chunk_words (chunk_text (word_chunker 3 0) ''one two three four five'')) \<and>
   without_first_words (chunk_words (chunk_text (word_chunker 3 0) ''one two three four five'')) =
     split ''one two three four five''"
proof -
  have h: "overlap_tokens (word_chunker 3 0) = 0" "0 < max_tokens (word_chunker 3 0)"
    by (simp_all add: word_chunker_def)
  have "chunk_words (chunk_text (word_chunker 3 0) ''one two three four five'') =
     [[''one'', ''two'', ''three''], [''three'', ''four'', ''five'']]"
    by (simp add: chunk_eval)
  with h overlap_zero_carries_one_word [OF h, of "''one two three four five''"]
  show ?thesis by simp
qed

subsection \<open>C2: the first scenario\<close>

theorem scenario_one_not_three_chunks:
  "map text' (chunk_text (word_chunker 2 0) ''alpha beta gamma delta epsilon'') \<noteq>
     [''alpha beta'', ''gamma delta'', ''epsilon''] \<and>
   total_chunks (process_text (word_chunker 2 0) ''alpha beta gamma delta epsilon'' ''text'') \<noteq> 3 \<and>
   total_tokens (process_text (word_chunker 2 0) ''alpha beta gamma delta epsilon'' ''text'') \<noteq> 5"
  by (simp add: chunk_eval)

text \<open>
  Claim C2, as amended. Under a token counter that gives one token to any single word with
  its trailing space and counts a joined text as its number of words, \<open>chunk_text\<close> on
  \<open>alpha beta gamma delta epsilon\<close> with \<open>max_tokens = 2\<close> and \<open>overlap_tokens = 0\<close> returns
  four chunks, \<open>alpha beta\<close>, \<open>beta gamma\<close>, \<open>gamma delta\<close> and \<open>delta epsilon\<close>, with
  indices 0 to 3, and the assembled result has \<open>total_chunks = 4\<close> and \<open>total_tokens = 8\<close>.
\<close>

theorem scenario_one_four_chunks:
  assumes one: "\<And>w. is_word w \<Longrightarrow> length (enc (w @ '' '')) = 1"
    and cnt: "\<And>ws. list_all is_word ws \<Longrightarrow> length (enc (join '' '' ws)) = length ws"
  shows "chunk_text \<lparr>max_tokens = 2, overlap_tokens = 0, model = m, encoding = enc\<rparr>
           ''alpha beta gamma delta epsilon'' =
         [\<lparr>index = 0, text' = ''alpha beta'', token_count = 2, char_count = 10\<rparr>,
          \<lparr>index = 1, text' = ''beta gamma'', token_count = 2, char_count = 10\<rparr>,
          \<lparr>index = 2, text' = ''gamma delta'', token_count = 2, char_count = 11\<rparr>,
          \<lparr>index = 3, text' = ''delta epsilon'', token_count = 2, char_count = 13\<rparr>] \<and>
         total_chunks (process_text \<lparr>max_tokens = 2, overlap_tokens = 0, model = m, encoding = enc\<rparr>
           ''alpha beta gamma delta epsilon'' src) = 4 \<and>
         total_tokens (process_text \<lparr>max_tokens = 2, overlap_tokens = 0, model = m, encoding = enc\<rparr>
           ''alpha beta gamma delta epsilon'' src) = 8"
proof -
  have w: "length (enc ''alpha '') = 1" "length (enc ''beta '') = 1" "length (enc ''gamma '') = 1"
    "length (enc ''delta '') = 1" "length (enc ''epsilon '') = 1"
    using one [of "''alpha''"] one [of "''beta''"] one [of "''gamma''"] one [of "''delta''"]
      one [of "''epsilon''"]
    by (simp_all add: is_word_def isspace_def)
  have j: "length (enc ''alpha beta'') = 2" "length (enc ''beta gamma'') = 2"
    "length (enc ''gamma delta'') = 2" "length (enc ''delta epsilon'') = 2"
    using cnt [of "[''alpha'', ''beta'']"] cnt [of "[''beta'', ''gamma'']"]
      cnt [of "[''gamma'', ''delta'']"] cnt [of "[''delta'', ''epsilon'']"]
    by (simp_all add: is_word_def isspace_def)
  have c: "chunk_text \<lparr>max_tokens = 2, overlap_tokens = 0, model = m, encoding = enc\<rparr>
           ''alpha beta gamma delta epsilon'' =
         [\<lparr>index = 0, text' = ''alpha beta'', token_count = 2, char_count = 10\<rparr>,
          \<lparr>index = 1, text' = ''beta gamma'', token_count = 2, char_count = 10\<rparr>,
          \<lparr>index = 2, text' = ''gamma delta'', token_count = 2, char_count = 11\<rparr>,
          \<lparr>index = 3, text' = ''delta epsilon'', token_count = 2, char_count = 13\<rparr>]"
    by (simp add: chunk_text_def split_def strip_def isspace_def make_chunk_def slice_from_def
        count_tokens_def w j)
  show ?thesis unfolding process_text_def c by simp
qed

theorem scenario_one_four_chunks_witness:
  "map text' (chunk_text (word_chunker 2 0) ''alpha beta gamma delta epsilon'') =
     [''alpha beta'', ''beta gamma'', ''gamma delta'', ''delta epsilon''] \<and>
   map index (chunk_text (word_chunker 2 0) ''alpha beta gamma delta epsilon'') = [0, 1, 2, 3] \<and>
   total_chunks (process_text (word_chunker 2 0) ''alpha beta gamma delta epsilon'' ''text'') = 4 \<and>
   total_tokens (process_text (word_chunker 2 0) ''alpha beta gamma delta epsilon'' ''text'') = 8"
  using scenario_one_four_chunks [of word_encoding "''words''" "''text''",
      OF word_encoding_one word_encoding_join]
  by (simp add: word_chunker_def)

subsection \<open>C3: construction\<close>

theorem init_accepts_invalid_configuration:
  "init (\<lambda>m. Some word_encoding) 0 (- 1) ''gpt-4'' =
     Inr \<lparr>max_tokens = 0, overlap_tokens = - 1, model = ''gpt-4'', encoding = word_encoding\<rparr>"
  by (simp add: init_def)

text \<open>
  Claim C3, as amended. Construction does not validate \<open>max_tokens\<close> or \<open>overlap_tokens\<close>:
  for any two integers, also \<open>max_tokens \<le> 0\<close> or \<open>overlap_tokens < 0\<close>, it succeeds
  whenever the tokenizer library knows the model, and the object holds both values as given.
\<close>

theorem init_stores_unvalidated:
  "encoding_for_model m = Some enc \<Longrightarrow>
     init encoding_for_model mt ot m =
       Inr \<lparr>max_tokens = mt, overlap_tokens = ot, model = m, encoding = enc\<rparr>"
  by (simp add: init_def)

theorem init_stores_unvalidated_witness:
  "(\<lambda>m. if m = ''gpt-4'' then Some char_encoding else None) ''gpt-4'' = Some char_encoding \<and>
   init (\<lambda>m. if m = ''gpt-4'' then Some char_encoding else None) (- 5) 0 ''gpt-4'' =
     Inr \<lparr>max_tokens = - 5, overlap_tokens = 0, model = ''gpt-4'', encoding = char_encoding\<rparr>"
  using init_stores_unvalidated
    [of "\<lambda>m. if m = ''gpt-4'' then Some char_encoding else None" "''gpt-4''" char_encoding "- 5" 0]
  by simp

subsection \<open>C4: no word split, dropped or reordered\<close>

text \<open>
  Claim C4. For every input text, each chunk after the first starts with the words carried
  over from the chunk before it (the last \<open>min k n\<close> words of a previous chunk of \<open>n\<close>
  words, for \<open>k = max(1, overlap_tokens // 4)\<close>), and the words of all chunks in order,
  without those carried words, are exactly the whitespace-split words of the input.
\<close>

theorem no_split_invariant:
  "overlapped (overlap_word_count self) (chunk_words (chunk_text self text)) \<and>
   remove_overlap (overlap_word_count self) (chunk_words (chunk_text self text)) = split text"
  using chunk_text_words [of self "text"] by simp

theorem no_split_invariant_witness:
  "chunk_words (chunk_text (word_chunker 3 8) ''one two three four five six'') =
     [[''one'', ''two'', ''three''], [''two'', ''three'', ''four''], [''three'', ''four'', ''five''],
      [''four'', ''five'', ''six'']] \<and>
   overlap_word_count (word_chunker 3 8) = 2 \<and>
   remove_overlap 2 (chunk_words (chunk_text (word_chunker 3 8) ''one two three four five six'')) =
     split ''one two three four five six''"
proof -
  have k: "overlap_word_count (word_chunker 3 8) = 2"
    by (simp add: overlap_word_count_def word_chunker_def)
  have "chunk_words (chunk_text (word_chunker 3 8) ''one two three four five six'') =
     [[''one'', ''two'', ''three''], [''two'', ''three'', ''four''], [''three'', ''four'', ''five''],
      [''four'', ''five'', ''six'']]"
    by (simp add: chunk_eval)
  with k no_split_invariant [of "word_chunker 3 8" "''one two three four five six''"]
  show ?thesis by simp
qed

subsection \<open>C5: the overlap kept at a commit\<close>

text \<open>
  Claim C5. When an iteration of the loop commits the window (the running estimate plus the
  word's insertion cost exceeds \<open>max_tokens\<close> and the window is not empty), the committed
  window becomes the next chunk, and the iteration goes on from the last \<open>n\<close> words of that
  window in their order, \<open>n\<close> being \<open>max(1, overlap_tokens // 4)\<close> clamped to the window's
  length, with the running estimate reset to the sum of their insertion costs; the word of
  the iteration and its cost are then added.
\<close>

theorem commit_keeps_overlap:
  assumes "int ct + int (count_tokens self (word @ '' '')) > max_tokens self" and "cw \<noteq> []"
  shows "step self (cs, cw, ct) word =
     (let n = min (nat (max 1 (overlap_tokens self div 4))) (length cw);
          kept = drop (length cw - n) cw
      in (cs @ [make_chunk self cs cw], kept @ [word],
          sum_list (map (\<lambda>w. count_tokens self (w @ '' '')) kept) +
          count_tokens self (word @ '' '')))"
  using assms
  by (auto simp: Let_def count_tokens_def slice_from_neg min_def
      intro!: arg_cong [where f = "\<lambda>n. drop n cw"])

theorem commit_keeps_overlap_witness:
  "int 11 + int (count_tokens (char_chunker 11 0) (''gamma'' @ '' '')) > max_tokens (char_chunker 11 0) \<and>
   [''alpha'', ''beta''] \<noteq> [] \<and>
   step (char_chunker 11 0) ([], [''alpha'', ''beta''], 11) ''gamma'' =
     ([\<lparr>index = 0, text' = ''alpha beta'', token_count = 10, char_count = 10\<rparr>],
      [''beta'', ''gamma''], 11)"
proof -
  have h: "int 11 + int (count_tokens (char_chunker 11 0) (''gamma'' @ '' ''))
      > max_tokens (char_chunker 11 0)"
    by (simp add: chunk_eval)
  have n: "[''alpha'', ''beta''] \<noteq> ([] :: string list)" by simp
  from commit_keeps_overlap [OF h n, of "[]"] h show ?thesis
    by (simp add: chunk_eval Let_def)
qed

subsection \<open>C6: exact token counts\<close>

text \<open>
  Claim C6. For every chunk that \<open>chunk_text\<close> returns, \<open>token_count\<close> is the token counter
  applied to the chunk's text.
\<close>

theorem token_count_exact:
  "\<forall>c \<in> set (chunk_text self text). token_count c = count_tokens self (text' c)"
  using run_loop_exact [of "[]" self "[]" 0 "split text"] by (simp add: chunk_text_def)

text \<open>
  With the character counter the running estimate of the window \<open>alpha beta\<close> is 11, and
  the chunk reports 10.
\<close>

theorem token_count_exact_witness:
  "\<lparr>index = 0, text' = ''alpha beta'', token_count = 10, char_count = 10\<rparr>
     \<in> set (chunk_text (char_chunker 11 0) ''alpha beta gamma'') \<and>
   snd (snd (run_loop (char_chunker 11 0) ([], [], 0) [''alpha'', ''beta''])) = 11 \<and>
   token_count \<lparr>index = 0, text' = ''alpha beta'', token_count = 10, char_count = 10\<rparr> =
     count_tokens (char_chunker 11 0)
       (text' \<lparr>index = 0, text' = ''alpha beta'', token_count = 10, char_count = 10\<rparr>)"
proof -
  have m: "\<lparr>index = 0, text' = ''alpha beta'', token_count = 10, char_count = 10\<rparr>
     \<in> set (chunk_text (char_chunker 11 0) ''alpha beta gamma'')"
    by (simp add: chunk_eval)
  have e: "snd (snd (run_loop (char_chunker 11 0) ([], [], 0) [''alpha'', ''beta''])) = 11"
    by (simp add: chunk_eval)
  from token_count_exact [of "char_chunker 11 0" "''alpha beta gamma''"] m e
  show ?thesis by blast
qed

subsection \<open>C7: aggregates\<close>

text \<open>
  Claim C7. In the result of \<open>process_text\<close>, and in every result that \<open>process\<close> returns,
  \<open>total_chunks\<close> is the number of chunks, \<open>total_tokens\<close> the sum of their token counts and
  \<open>total_chars\<close> the sum of their character counts.
\<close>

theorem aggregates_consistent:
  "(total_chunks (process_text self text name) = length (chunks (process_text self text name)) \<and>
    total_tokens (process_text self text name) =
      sum_list (map token_count (chunks (process_text self text name))) \<and>
    total_chars (process_text self text name) =
      sum_list (map char_count (chunks (process_text self text name)))) \<and>
   (\<forall>calls r. process e self file_path = (calls, Inr r) \<longrightarrow>
       total_chunks r = length (chunks r) \<and>
       total_tokens r = sum_list (map token_count (chunks r)) \<and>
       total_chars r = sum_list (map char_count (chunks r)))"
  by (auto simp: process_text_def process_def Let_def split: if_splits prod.splits sum.splits)

theorem aggregates_consistent_witness:
  "process \<lparr>path_exists = (\<lambda>p. True), run_extractor = (\<lambda>f p. Inr ''alpha beta gamma'')\<rparr>
     (word_chunker 2 0) ''docs/report.PDF'' =
     ([(extract_pdf, ''docs/report.PDF'')],
      Inr \<lparr>source = ''report.PDF'', total_chunks = 2, total_tokens = 4, total_chars = 20,
           chunks = [\<lparr>index = 0, text' = ''alpha beta'', token_count = 2, char_count = 10\<rparr>,
                     \<lparr>index = 1, text' = ''beta gamma'', token_count = 2, char_count = 10\<rparr>],
           config = [(''max_tokens'', IntV 2), (''overlap_tokens'', IntV 0),
                     (''model'', StrV ''words'')]\<rparr>) \<and>
   total_chunks (process_text (word_chunker 2 0) ''alpha beta gamma'' ''text'') = 2 \<and>
   total_tokens (process_text (word_chunker 2 0) ''alpha beta gamma'' ''text'') = 4 \<and>
   total_chars (process_text (word_chunker 2 0) ''alpha beta gamma'' ''text'') = 20"
proof -
  have p: "process \<lparr>path_exists = (\<lambda>p. True), run_extractor = (\<lambda>f p. Inr ''alpha beta gamma'')\<rparr>
     (word_chunker 2 0) ''docs/report.PDF'' =
     ([(extract_pdf, ''docs/report.PDF'')],
      Inr \<lparr>source = ''report.PDF'', total_chunks = 2, total_tokens = 4, total_chars = 20,
           chunks = [\<lparr>index = 0, text' = ''alpha beta'', token_count = 2, char_count = 10\<rparr>,
                     \<lparr>index = 1, text' = ''beta gamma'', token_count = 2, char_count = 10\<rparr>],
           config = [(''max_tokens'', IntV 2), (''overlap_tokens'', IntV 0),
                     (''model'', StrV ''words'')]\<rparr>)"
    by (simp add: path_eval chunk_eval config_of_def)
  have c: "chunks (process_text (word_chunker 2 0) ''alpha beta gamma'' ''text'') =
     [\<lparr>index = 0, text' = ''alpha beta'', token_count = 2, char_count = 10\<rparr>,
      \<lparr>index = 1, text' = ''beta gamma'', token_count = 2, char_count = 10\<rparr>]"
    by (simp add: chunk_eval)
  from aggregates_consistent
    [of "word_chunker 2 0" "''alpha beta gamma''" "''text''"
      "\<lparr>path_exists = (\<lambda>p. True), run_extractor = (\<lambda>f p. Inr ''alpha beta gamma'')\<rparr>"
      "''docs/report.PDF''"] p c
  show ?thesis by simp
qed

subsection \<open>C8: empty input\<close>

text \<open>
  Claim C8. For a text that is empty or has only whitespace characters, \<open>chunk_text\<close>
  returns the empty list, and \<open>process_text\<close> a result with no chunks and
  \<open>total_chunks = 0\<close>.
\<close>

theorem empty_input_no_chunks:
  "list_all isspace text \<Longrightarrow>
     chunk_text self text = [] \<and>
     total_chunks (process_text self text name) = 0 \<and>
     chunks (process_text self text name) = []"
  by (simp add: chunk_text_def process_text_def strip_Nil_iff)

theorem empty_input_no_chunks_witness:
  "list_all isspace [CHR '' '', CHR 0x09, CHR 0x0A] \<and>
   chunk_text (char_chunker 1000 100) [CHR '' '', CHR 0x09, CHR 0x0A] = [] \<and>
   total_chunks (process_text (char_chunker 1000 100) [CHR '' '', CHR 0x09, CHR 0x0A] ''text'') = 0 \<and>
   chunks (process_text (char_chunker 1000 100) [CHR '' '', CHR 0x09, CHR 0x0A] ''text'') = []"
proof -
  have h: "list_all isspace [CHR '' '', CHR 0x09, CHR 0x0A]"
    by (simp add: isspace_def)
  from empty_input_no_chunks [OF h, of "char_chunker 1000 100" "''text''"] h
  show ?thesis by simp
qed

subsection \<open>C9: unsupported formats\<close>

text \<open>
  Claim C9. For an existing path whose lowercased suffix is not one of \<open>.pdf\<close>, \<open>.docx\<close>,
  \<open>.xlsx\<close>, \<open>.xls\<close>, \<open>.csv\<close>, \<open>.pptx\<close>, \<open>process\<close> raises the error for an unsupported
  format and has called no extractor; whenever \<open>process\<close> calls an extractor, the suffix is
  one of the six.
\<close>

theorem unsupported_format_before_extraction:
  "(path_exists e file_path \<and>
    lower (suffix file_path) \<notin> {''.pdf'', ''.docx'', ''.xlsx'', ''.xls'', ''.csv'', ''.pptx''} \<longrightarrow>
      process e self file_path = ([], Inl (ValueError (lower (suffix file_path))))) \<and>
   (\<forall>f p. (f, p) \<in> set (fst (process e self file_path)) \<longrightarrow>
      lower (suffix file_path) \<in> {''.pdf'', ''.docx'', ''.xlsx'', ''.xls'', ''.csv'', ''.pptx''})"
proof -
  have s: "get_supported_extensions = {''.pdf'', ''.docx'', ''.xlsx'', ''.xls'', ''.csv'', ''.pptx''}"
    by (simp add: get_supported_extensions_def EXTRACTORS_def)
  show ?thesis
    unfolding process_def s
    by (auto simp: Let_def split: if_splits prod.splits sum.splits)
qed

theorem unsupported_format_before_extraction_witness:
  "path_exists \<lparr>path_exists = (\<lambda>p. True), run_extractor = (\<lambda>f p. Inr ''alpha beta gamma'')\<rparr>
     ''notes/todo.TXT'' \<and>
   lower (suffix ''notes/todo.TXT'') = ''.txt'' \<and>
   process \<lparr>path_exists = (\<lambda>p. True), run_extractor = (\<lambda>f p. Inr ''alpha beta gamma'')\<rparr>
     (word_chunker 2 0) ''notes/todo.TXT'' = ([], Inl (ValueError ''.txt'')) \<and>
   (extract_csv, ''data/table.Csv'') \<in> set (fst (process
     \<lparr>path_exists = (\<lambda>p. True), run_extractor = (\<lambda>f p. Inr ''alpha beta gamma'')\<rparr>
     (word_chunker 2 0) ''data/table.Csv'')) \<and>
   lower (suffix ''data/table.Csv'')
     \<in> {''.pdf'', ''.docx'', ''.xlsx'', ''.xls'', ''.csv'', ''.pptx''}"
proof -
  let ?e = "\<lparr>path_exists = (\<lambda>p. True), run_extractor = (\<lambda>f p. Inr ''alpha beta gamma'')\<rparr>"
  have t: "lower (suffix ''notes/todo.TXT'') = ''.txt''"
    by (simp add: path_eval)
  have c: "lower (suffix ''data/table.Csv'') = ''.csv''"
    by (simp add: path_eval)
  have m: "(extract_csv, ''data/table.Csv'') \<in> set (fst (process ?e (word_chunker 2 0) ''data/table.Csv''))"
    by (simp add: process_def extract_text_def get_supported_extensions_def EXTRACTORS_def c
        Let_def)
  from unsupported_format_before_extraction [of ?e "''notes/todo.TXT''" "word_chunker 2 0"] t
  have u: "process ?e (word_chunker 2 0) ''notes/todo.TXT'' = ([], Inl (ValueError ''.txt''))"
    by simp
  from unsupported_format_before_extraction [of ?e "''data/table.Csv''" "word_chunker 2 0"] m
  have "lower (suffix ''data/table.Csv'') \<in> {''.pdf'', ''.docx'', ''.xlsx'', ''.xls'', ''.csv'', ''.pptx''}"
    by blast
  with t m u show ?thesis by simp
qed

subsection \<open>C10: at most one chunk for each word\<close>

text \<open>
  Claim C10. For every input text and every configuration with \<open>max_tokens > 0\<close>,
  \<open>chunk_text\<close> returns at most as many chunks as the text has whitespace-delimited words:
  an iteration that starts from an empty window commits nothing, any iteration adds at most
  one chunk, and the end of the loop adds exactly one chunk when the window is not empty.
\<close>

theorem chunk_count_le_words:
  assumes "0 < max_tokens self"
  shows "length (chunk_text self text) \<le> length (split text) \<and>
         fst (step self (cs, [], ct) word) = cs \<and>
         length (fst (step self (cs, cw, ct) word)) \<le> Suc (length cs) \<and>
         (cw \<noteq> [] \<longrightarrow> length (finish self (cs, cw, ct)) = Suc (length cs))"
proof -
  have "length (chunk_text self text) \<le> length (split text)"
    using run_loop_length [of self "[]" "[]" 0 "split text"] by (simp add: chunk_text_def)
  moreover have "fst (step self (cs, [], ct) word) = cs"
    by (simp add: Let_def)
  moreover have "length (fst (step self (cs, cw, ct) word)) \<le> Suc (length cs)"
    by (simp add: Let_def)
  ultimately show ?thesis by simp
qed

theorem chunk_count_le_words_witness:
  "0 < max_tokens (word_chunker 1 0) \<and>
   length (chunk_text (word_chunker 1 0) ''alpha beta gamma'') = 3 \<and>
   length (split ''alpha beta gamma'') = 3 \<and>
   [''alpha''] \<noteq> [] \<and>
   length (finish (word_chunker 1 0) ([], [''alpha''], 1)) = Suc (length ([] :: Chunk list)) \<and>
   length (chunk_text (word_chunker 1 0) ''alpha beta gamma'') \<le> length (split ''alpha beta gamma'')"
proof -
  have h: "0 < max_tokens (word_chunker 1 0)" by (simp add: word_chunker_def)
  have "length (chunk_text (word_chunker 1 0) ''alpha beta gamma'') = 3"
    and "length (split ''alpha beta gamma'') = 3"
    by (simp_all add: chunk_eval)
  with h chunk_count_le_words [OF h, of "''alpha beta gamma''" "[]" 1 "''beta''" "[''alpha'']"]
  show ?thesis by simp
qed

end
